theory Spec2Isabelle
  imports Main "HOL-Library.Multiset"
begin

section \<open>The Date object of the platform\<close>

text \<open>
  The program computes with JavaScript \<open>Date\<close> objects. A \<open>Date\<close> holds a time value,
  a number of milliseconds; its getters, setters and constructor are the abstract
  operations of the ECMAScript specification (Day, TimeWithinDay, DayFromYear,
  YearFromTime, MonthFromTime, DateFromTime, WeekDay, MakeDay, MakeDate), which are
  written out below on integers.

  Scope of the model: the time value is the local one, for a time zone whose offset
  from UTC is constant (no daylight saving transitions), and it is finite and stays in
  the range of time values (no Invalid Date). The constructor's reading of a year from
  0 to 99 as 1900 to 1999 is part of the model.
\<close>

datatype Date = TimeValue (getTime: int)

definition msPerDay :: int where
  "msPerDay = 86400000"

definition Day :: "int \<Rightarrow> int" where
  "Day t = t div msPerDay"

definition TimeWithinDay :: "int \<Rightarrow> int" where
  "TimeWithinDay t = t mod msPerDay"

definition DaysInYear :: "int \<Rightarrow> int" where
  "DaysInYear y =
     (if y mod 4 \<noteq> 0 then 365
      else if y mod 100 \<noteq> 0 then 366
      else if y mod 400 \<noteq> 0 then 365
      else 366)"

definition DayFromYear :: "int \<Rightarrow> int" where
  "DayFromYear y =
     365 * (y - 1970) + (y - 1969) div 4 - (y - 1901) div 100 + (y - 1601) div 400"

text \<open>
  ECMAScript: YearFromTime(t) is the largest year \<open>y\<close> with
  \<open>DayFromYear y \<le> Day t\<close>. It is computed here from an estimate that is off by
  at most one year; lemma \<open>YearFromDay_iff\<close> below shows that the result is that
  largest year.
\<close>

definition YearFromDay :: "int \<Rightarrow> int" where
  "YearFromDay d =
     (let y0 = 1970 + (400 * d) div 146097
      in if d < DayFromYear y0 then y0 - 1
         else if DayFromYear (y0 + 1) \<le> d then y0 + 1
         else y0)"

definition YearFromTime :: "int \<Rightarrow> int" where
  "YearFromTime t = YearFromDay (Day t)"

definition InLeapYear :: "int \<Rightarrow> int" where
  "InLeapYear t = (if DaysInYear (YearFromTime t) = 365 then 0 else 1)"

definition DayWithinYear :: "int \<Rightarrow> int" where
  "DayWithinYear t = Day t - DayFromYear (YearFromTime t)"

definition MonthFromTime :: "int \<Rightarrow> int" where
  "MonthFromTime t =
     (let d = DayWithinYear t; l = InLeapYear t
      in if d < 31 then 0
         else if d < 59 + l then 1
         else if d < 90 + l then 2
         else if d < 120 + l then 3
         else if d < 151 + l then 4
         else if d < 181 + l then 5
         else if d < 212 + l then 6
         else if d < 243 + l then 7
         else if d < 273 + l then 8
         else if d < 304 + l then 9
         else if d < 334 + l then 10
         else 11)"

definition DateFromTime :: "int \<Rightarrow> int" where
  "DateFromTime t =
     (let d = DayWithinYear t; l = InLeapYear t; m = MonthFromTime t
      in if m = 0 then d + 1
         else if m = 1 then d - 30
         else if m = 2 then d - 58 - l
         else if m = 3 then d - 89 - l
         else if m = 4 then d - 119 - l
         else if m = 5 then d - 150 - l
         else if m = 6 then d - 180 - l
         else if m = 7 then d - 211 - l
         else if m = 8 then d - 242 - l
         else if m = 9 then d - 272 - l
         else if m = 10 then d - 303 - l
         else d - 333 - l)"

definition WeekDay :: "int \<Rightarrow> int" where
  "WeekDay t = (Day t + 4) mod 7"

text \<open>
  The day within a year on which month \<open>mn\<close> (0 to 11) starts; \<open>l\<close> is 1 in a leap
  year. These are the thresholds of MonthFromTime.
\<close>

definition monthStart :: "int \<Rightarrow> int \<Rightarrow> int" where
  "monthStart mn l =
     (if mn = 0 then 0
      else if mn = 1 then 31
      else if mn = 2 then 59 + l
      else if mn = 3 then 90 + l
      else if mn = 4 then 120 + l
      else if mn = 5 then 151 + l
      else if mn = 6 then 181 + l
      else if mn = 7 then 212 + l
      else if mn = 8 then 243 + l
      else if mn = 9 then 273 + l
      else if mn = 10 then 304 + l
      else 334 + l)"

text \<open>
  ECMAScript MakeDay(year, month, date): the month is carried into the year, the day
  number of the first of that month is found, and \<open>date - 1\<close> is added, whatever
  its size or sign.
\<close>

definition MakeDay :: "int \<Rightarrow> int \<Rightarrow> int \<Rightarrow> int" where
  "MakeDay year month dt =
     (let ym = year + month div 12;
          mn = month mod 12
      in DayFromYear ym + monthStart mn (if DaysInYear ym = 365 then 0 else 1) + dt - 1)"

definition MakeDate :: "int \<Rightarrow> int \<Rightarrow> int" where
  "MakeDate day time = day * msPerDay + time"

text \<open>The getters \<open>getFullYear()\<close>, \<open>getMonth()\<close>, \<open>getDate()\<close>, \<open>getDay()\<close>.\<close>

definition getFullYear :: "Date \<Rightarrow> int" where
  "getFullYear d = YearFromTime (getTime d)"

definition getMonth :: "Date \<Rightarrow> int" where
  "getMonth d = MonthFromTime (getTime d)"

definition getDate :: "Date \<Rightarrow> int" where
  "getDate d = DateFromTime (getTime d)"

definition getDay :: "Date \<Rightarrow> int" where
  "getDay d = WeekDay (getTime d)"

text \<open>
  \<open>new Date(year, month, date)\<close>: local midnight of the day MakeDay gives, with a
  year from 0 to 99 read as 1900 + year.
\<close>

definition newDate :: "int \<Rightarrow> int \<Rightarrow> int \<Rightarrow> Date" where
  "newDate year month dt =
     (let yr = (if 0 \<le> year \<and> year \<le> 99 then 1900 + year else year)
      in TimeValue (MakeDate (MakeDay yr month dt) 0))"

text \<open>\<open>d.setDate(n)\<close> and \<open>d.setMonth(m)\<close>, returning the updated object.\<close>

definition setDate :: "Date \<Rightarrow> int \<Rightarrow> Date" where
  "setDate d n =
     (let t = getTime d
      in TimeValue (MakeDate (MakeDay (YearFromTime t) (MonthFromTime t) n) (TimeWithinDay t)))"

definition setMonth :: "Date \<Rightarrow> int \<Rightarrow> Date" where
  "setMonth d m =
     (let t = getTime d
      in TimeValue (MakeDate (MakeDay (YearFromTime t) m (DateFromTime t)) (TimeWithinDay t)))"

text \<open>
  \<open>Math.round(n / m)\<close> for integers \<open>n\<close> and \<open>m > 0\<close>: the quotient rounded to the
  nearest integer, a half rounded up.
\<close>

definition Math_round_quot :: "int \<Rightarrow> int \<Rightarrow> int" where
  "Math_round_quot n m = (2 * n + m) div (2 * m)"

text \<open>
  A value that may be \<open>null\<close> or \<open>undefined\<close>. Reading a list out of range gives
  \<open>undefined\<close>; the remainder \<open>a % b\<close> is NaN (here \<open>None\<close>) when \<open>b\<close> is 0, and
  has the sign of \<open>a\<close> otherwise.
\<close>

datatype 'a js = Null | Undefined | Val 'a

definition js_index :: "'a list \<Rightarrow> int \<Rightarrow> 'a js" where
  "js_index xs i = (if 0 \<le> i \<and> i < int (length xs) then Val (xs ! nat i) else Undefined)"

definition js_rem :: "int \<Rightarrow> int \<Rightarrow> int option" where
  "js_rem a b = (if b = 0 then None else Some (sgn a * (\<bar>a\<bar> mod \<bar>b\<bar>)))"

section \<open>The rotation: data\<close>

text \<open>
  A tenant is an object with an \<open>id\<close> and a \<open>name\<close>. The two source files differ in
  the duty weekday only (4, Thursday, in \<open>BinDuty.jsx\<close>; 3, Wednesday, in the other
  file); their constants \<open>TENANTS\<close>, the duty weekday and \<open>ROTATION_START\<close> are
  gathered in a configuration that the functions below take as an argument.
\<close>

record tenant =
  id_t :: string
  name :: string

record config =
  participants :: "tenant list"
  dutyWeekday :: int
  anchorDate :: Date

definition TENANTS :: "tenant list" where
  "TENANTS =
     [\<lparr>id_t = ''1'', name = ''Basser''\<rparr>,
      \<lparr>id_t = ''2'', name = ''Berman''\<rparr>,
      \<lparr>id_t = ''3'', name = ''Galet''\<rparr>,
      \<lparr>id_t = ''4'', name = ''Leshinsky''\<rparr>,
      \<lparr>id_t = ''5'', name = ''Vale''\<rparr>]"

definition ROTATION_START :: Date where
  "ROTATION_START = newDate 2025 7 13"

definition THURSDAY :: int where
  "THURSDAY = 4"

definition thursday_config :: config where
  "thursday_config =
     \<lparr>participants = TENANTS, dutyWeekday = THURSDAY, anchorDate = ROTATION_START\<rparr>"

definition wednesday_config :: config where
  "wednesday_config =
     \<lparr>participants = TENANTS, dutyWeekday = 3, anchorDate = ROTATION_START\<rparr>"

section \<open>Utilities\<close>

definition MS_PER_DAY :: int where
  "MS_PER_DAY = 24 * 60 * 60 * 1000"

definition toLocalMidnight :: "Date \<Rightarrow> Date" where
  "toLocalMidnight d = newDate (getFullYear d) (getMonth d) (getDate d)"

definition daysBetween :: "Date \<Rightarrow> Date \<Rightarrow> int" where
  "daysBetween a b =
     (let a0 = getTime (toLocalMidnight a);
          b0 = getTime (toLocalMidnight b)
      in Math_round_quot (b0 - a0) MS_PER_DAY)"

definition addDays :: "Date \<Rightarrow> int \<Rightarrow> Date" where
  "addDays d n = (let r = d in setDate r (getDate r + n))"

definition addMonths :: "Date \<Rightarrow> int \<Rightarrow> Date" where
  "addMonths d n = (let r = d in setMonth r (getMonth r + n))"

definition isSameDay :: "Date \<Rightarrow> Date \<Rightarrow> bool" where
  "isSameDay a b \<longleftrightarrow>
     getFullYear a = getFullYear b \<and> getMonth a = getMonth b \<and> getDate a = getDate b"

section \<open>Assignment\<close>

definition getAssigneeForDate :: "config \<Rightarrow> Date \<Rightarrow> tenant js" where
  "getAssigneeForDate cfg date =
     (if getDay date \<noteq> dutyWeekday cfg then Null
      else
        let diff = max 0 (daysBetween (anchorDate cfg) date);
            weeks = diff div 7
        in case js_rem weeks (int (length (participants cfg))) of
             None \<Rightarrow> Undefined
           | Some idx \<Rightarrow> js_index (participants cfg) idx)"

section \<open>The enumerations of the component\<close>

text \<open>
  The component reads the clock once, \<open>today = toLocalMidnight(new Date())\<close>, and
  derives its lists from it. Here \<open>today\<close> is an argument. An entry of a list is an
  object with a \<open>date\<close> and the tenant \<open>who\<close> is on duty.
\<close>

record occurrence =
  date :: Date
  who :: "tenant js"

text \<open>
  \<open>twelveWeeks\<close>: the loop \<open>for (let i = 0; i < 120; i++)\<close> that pushes every
  candidate on the duty weekday and breaks when the list holds 12 entries.
\<close>

function twelveWeeks_loop :: "config \<Rightarrow> Date \<Rightarrow> int \<Rightarrow> occurrence list \<Rightarrow> occurrence list" where
  "twelveWeeks_loop cfg today i list =
     (if i < 120 then
        (let candidate = addDays today i
         in if getDay candidate = dutyWeekday cfg then
              (let list' = list @ [\<lparr>date = candidate, who = getAssigneeForDate cfg candidate\<rparr>]
               in if int (length list') = 12 then list'
                  else twelveWeeks_loop cfg today (i + 1) list')
            else twelveWeeks_loop cfg today (i + 1) list)
      else list)"
  by pat_completeness auto
termination
  by (relation "measure (\<lambda>(cfg, today, i, list). nat (120 - i))") auto

declare twelveWeeks_loop.simps [simp del]

definition twelveWeeks :: "config \<Rightarrow> Date \<Rightarrow> occurrence list" where
  "twelveWeeks cfg today = twelveWeeks_loop cfg today 0 []"

text \<open>
  \<open>nextForSelected\<close>: \<open>null\<close> (here \<open>None\<close>) at once when the selected id is the
  empty string; otherwise the loop \<open>for (let i = 0; i < 365; i++)\<close> that returns the
  first candidate on the duty weekday whose assignee has the selected id.
\<close>

function nextForSelected_loop :: "config \<Rightarrow> string \<Rightarrow> Date \<Rightarrow> int \<Rightarrow> Date option" where
  "nextForSelected_loop cfg selectedTenantId today i =
     (if i < 365 then
        (let candidate = addDays today i
         in if getDay candidate \<noteq> dutyWeekday cfg then
              nextForSelected_loop cfg selectedTenantId today (i + 1)
            else
              (let who = getAssigneeForDate cfg candidate
               in if (case who of Val w \<Rightarrow> id_t w = selectedTenantId | _ \<Rightarrow> False)
                  then Some candidate
                  else nextForSelected_loop cfg selectedTenantId today (i + 1)))
      else None)"
  by pat_completeness auto
termination
  by (relation "measure (\<lambda>(cfg, sel, today, i). nat (365 - i))") auto

declare nextForSelected_loop.simps [simp del]

definition nextForSelected :: "config \<Rightarrow> string \<Rightarrow> Date \<Rightarrow> Date option" where
  "nextForSelected cfg selectedTenantId today =
     (if selectedTenantId = [] then None
      else nextForSelected_loop cfg selectedTenantId today 0)"

section \<open>Calendar grid\<close>










section \<open>Notions used to state the properties\<close>

text \<open>
  The assignees of \<open>participants.length\<close> duty occurrences in a row: the one at
  \<open>start\<close> and each following one 7 days after the previous.
\<close>

definition consecutiveAssignees :: "config \<Rightarrow> Date \<Rightarrow> tenant js list" where
  "consecutiveAssignees cfg start =
     map (\<lambda>k. getAssigneeForDate cfg (addDays start (7 * int k)))
       [0..<length (participants cfg)]"

text \<open>The entry that the enumerations build for the day \<open>i\<close> days after \<open>today\<close>.\<close>

definition occurrenceAt :: "config \<Rightarrow> Date \<Rightarrow> int \<Rightarrow> occurrence" where
  "occurrenceAt cfg today i =
     \<lparr>date = addDays today i, who = getAssigneeForDate cfg (addDays today i)\<rparr>"

text \<open>
  The test \<open>who && who.id === selectedTenantId\<close> of \<open>nextForSelected\<close> on the
  assignee of a date.
\<close>

definition assignedTo :: "config \<Rightarrow> string \<Rightarrow> Date \<Rightarrow> bool" where
  "assignedTo cfg pid d \<longleftrightarrow>
     (case getAssigneeForDate cfg d of Val w \<Rightarrow> id_t w = pid | _ \<Rightarrow> False)"

text \<open>The number of days of month \<open>m\<close> (0 to 11) of year \<open>y\<close>.\<close>

definition monthLength :: "int \<Rightarrow> int \<Rightarrow> int" where
  "monthLength y m =
     (if m = 1 then (if DaysInYear y = 365 then 28 else 29)
      else if m = 3 \<or> m = 5 \<or> m = 8 \<or> m = 10 then 30
      else 31)"

section \<open>Calendar arithmetic\<close>

text \<open>
  A year has 365 or 366 days, DayFromYear grows with the year, and YearFromDay is the
  largest year that starts on or before a day. From this the fields of a time value
  give back its day number.
\<close>

lemma div_step:
  fixes a k :: int
  assumes "0 < k"
  shows "(a + 1) div k = a div k + (if (a + 1) mod k = 0 then 1 else 0)"
proof -
  define q where "q = a div k"
  define r where "r = a mod k"
  have a: "a = k * q + r" and r: "0 \<le> r" "r < k"
    using assms by (simp_all add: q_def r_def)
  show ?thesis
  proof (cases "r + 1 = k")
    case True
    then have e: "a + 1 = k * (q + 1) + 0" using a by (simp add: algebra_simps)
    have "(a + 1) div k = q + 1"
      by (rule int_div_pos_eq [OF e]) (use assms in auto)
    moreover have "(a + 1) mod k = 0"
      by (rule int_mod_pos_eq [OF e]) (use assms in auto)
    ultimately show ?thesis by (simp add: q_def)
  next
    case False
    then have lt: "r + 1 < k" using r by simp
    have e: "a + 1 = k * q + (r + 1)" using a by simp
    have "(a + 1) div k = q"
      by (rule int_div_pos_eq [OF e]) (use r lt in auto)
    moreover have "(a + 1) mod k = r + 1"
      by (rule int_mod_pos_eq [OF e]) (use r lt in auto)
    ultimately show ?thesis using r by (simp add: q_def)
  qed
qed

lemma mod_shift4: "(y - 1968) mod 4 = y mod (4::int)"
  using mod_mult_self1 [of y "- 492" 4] by simp

lemma mod_shift100: "(y - 1900) mod 100 = y mod (100::int)"
  using mod_mult_self1 [of y "- 19" 100] by simp

lemma mod_shift400: "(y - 1600) mod 400 = y mod (400::int)"
  using mod_mult_self1 [of y "- 4" 400] by simp

lemma mod100_mod4: "y mod 100 = 0 \<Longrightarrow> y mod 4 = (0::int)"
proof -
  assume "y mod 100 = 0"
  then have "100 dvd y" by (simp add: mod_eq_0_iff_dvd)
  moreover have "(4::int) dvd 100" by simp
  ultimately have "4 dvd y" by (rule dvd_trans [rotated])
  then show ?thesis by (simp add: mod_eq_0_iff_dvd)
qed

lemma mod400_mod100: "y mod 400 = 0 \<Longrightarrow> y mod 100 = (0::int)"
proof -
  assume "y mod 400 = 0"
  then have "400 dvd y" by (simp add: mod_eq_0_iff_dvd)
  moreover have "(100::int) dvd 400" by simp
  ultimately have "100 dvd y" by (rule dvd_trans [rotated])
  then show ?thesis by (simp add: mod_eq_0_iff_dvd)
qed

lemma DayFromYear_step: "DayFromYear (y + 1) = DayFromYear y + DaysInYear y"
proof -
  have a: "(y + 1 - 1969) div 4 = (y - 1969) div 4 + (if y mod 4 = 0 then 1 else 0)"
    using div_step [of 4 "y - 1969"] mod_shift4 [of y] by (simp add: algebra_simps)
  have b: "(y + 1 - 1901) div 100 = (y - 1901) div 100 + (if y mod 100 = 0 then 1 else 0)"
    using div_step [of 100 "y - 1901"] mod_shift100 [of y] by (simp add: algebra_simps)
  have c: "(y + 1 - 1601) div 400 = (y - 1601) div 400 + (if y mod 400 = 0 then 1 else 0)"
    using div_step [of 400 "y - 1601"] mod_shift400 [of y] by (simp add: algebra_simps)
  show ?thesis
    unfolding DayFromYear_def DaysInYear_def a b c
    using mod100_mod4 [of y] mod400_mod100 [of y] by auto
qed


lemma div_bounds:
  fixes a k :: int
  assumes "0 < k"
  shows "k * (a div k) \<le> a" and "a < k * (a div k) + k"
  using pos_mod_sign [OF assms, of a] pos_mod_bound [OF assms, of a] mult_div_mod_eq [of k a]
  by linarith+

lemma DayFromYear_upper: "400 * DayFromYear y \<le> 146097 * (y - 1970) + 589"
proof -
  define a where "a = (y - 1969) div 4"
  define b where "b = (y - 1901) div 100"
  define c where "c = (y - 1601) div 400"
  have "4 * a \<le> y - 1969" "y - 1901 < 100 * b + 100" "400 * c \<le> y - 1601"
    unfolding a_def b_def c_def by (rule div_bounds; simp)+
  moreover have "DayFromYear y = 365 * y - 719050 + a - b + c"
    by (simp add: DayFromYear_def a_def b_def c_def)
  ultimately show ?thesis by (simp add: algebra_simps)
qed

lemma DayFromYear_lower: "146097 * (y - 1970) - 506 \<le> 400 * DayFromYear y"
proof -
  define a where "a = (y - 1969) div 4"
  define b where "b = (y - 1901) div 100"
  define c where "c = (y - 1601) div 400"
  have "y - 1969 < 4 * a + 4" "100 * b \<le> y - 1901" "y - 1601 < 400 * c + 400"
    unfolding a_def b_def c_def by (rule div_bounds; simp)+
  moreover have "DayFromYear y = 365 * y - 719050 + a - b + c"
    by (simp add: DayFromYear_def a_def b_def c_def)
  ultimately show ?thesis by (simp add: algebra_simps)
qed

lemma DaysInYear_ge: "365 \<le> DaysInYear y"
  by (simp add: DaysInYear_def)

lemma DaysInYear_le: "DaysInYear y \<le> 366"
  by (simp add: DaysInYear_def)

lemma YearFromDay_bounds:
  "DayFromYear (YearFromDay d) \<le> d \<and> d < DayFromYear (YearFromDay d + 1)"
proof -
  define q where "q = (400 * d) div 146097"
  have q: "146097 * q \<le> 400 * d" "400 * d < 146097 * q + 146097"
    unfolding q_def by (rule div_bounds; simp)+
  define lo where "lo = DayFromYear (1970 + q - 1)"
  define hi where "hi = DayFromYear (1970 + q + 1 + 1)"
  have "400 * lo \<le> 146097 * q - 146097 + 589"
    using DayFromYear_upper [of "1970 + q - 1"] by (simp add: lo_def algebra_simps)
  then have lo: "lo \<le> d" using q by linarith
  have "146097 * q + 292194 - 506 \<le> 400 * hi"
    using DayFromYear_lower [of "1970 + q + 1 + 1"] by (simp add: hi_def algebra_simps)
  then have hi: "d < hi" using q by linarith
  show ?thesis
    unfolding YearFromDay_def Let_def q_def [symmetric]
    using lo hi by (auto simp: algebra_simps lo_def hi_def)
qed


lemma DayFromYear_add: "DayFromYear y + 365 * int n \<le> DayFromYear (y + int n)"
proof (induction n)
  case 0
  show ?case by simp
next
  case (Suc n)
  have "y + int (Suc n) = y + int n + 1" by simp
  then have "DayFromYear (y + int (Suc n)) = DayFromYear (y + int n) + DaysInYear (y + int n)"
    using DayFromYear_step [of "y + int n"] by (simp only:)
  with Suc DaysInYear_ge [of "y + int n"] show ?case by simp
qed

lemma DayFromYear_mono: "y \<le> y' \<Longrightarrow> DayFromYear y \<le> DayFromYear y'"
  using DayFromYear_add [of y "nat (y' - y)"] by simp

lemma DayFromYear_less: "y < y' \<Longrightarrow> DayFromYear y < DayFromYear y'"
  using DayFromYear_mono [of "y + 1" y'] DayFromYear_step [of y] DaysInYear_ge [of y]
  by simp

lemma YearFromDay_iff: "y \<le> YearFromDay d \<longleftrightarrow> DayFromYear y \<le> d"
proof
  assume "y \<le> YearFromDay d"
  then show "DayFromYear y \<le> d"
    using DayFromYear_mono [of y "YearFromDay d"] YearFromDay_bounds [of d] by simp
next
  assume a: "DayFromYear y \<le> d"
  show "y \<le> YearFromDay d"
  proof (rule ccontr)
    assume "\<not> y \<le> YearFromDay d"
    then have "YearFromDay d + 1 \<le> y" by simp
    then have "DayFromYear (YearFromDay d + 1) \<le> DayFromYear y" by (rule DayFromYear_mono)
    with a YearFromDay_bounds [of d] show False by simp
  qed
qed

lemma YearFromDay_unique:
  assumes "DayFromYear y \<le> d" and "d < DayFromYear (y + 1)"
  shows "YearFromDay d = y"
proof -
  have "y \<le> YearFromDay d" using assms(1) by (simp add: YearFromDay_iff)
  moreover have "\<not> y + 1 \<le> YearFromDay d" using assms(2) by (simp add: YearFromDay_iff)
  ultimately show ?thesis by simp
qed

lemma YearFromDay_mono: "d \<le> d' \<Longrightarrow> YearFromDay d \<le> YearFromDay d'"
  using YearFromDay_iff [of "YearFromDay d" d'] YearFromDay_bounds [of d] by simp

lemma InLeapYear_eq: "DaysInYear (YearFromTime t) = 365 + InLeapYear t"
  by (simp add: InLeapYear_def DaysInYear_def)

lemma InLeapYear_cases: "InLeapYear t = 0 \<or> InLeapYear t = 1"
  by (simp add: InLeapYear_def)

lemma DayWithinYear_bounds: "0 \<le> DayWithinYear t" "DayWithinYear t < 365 + InLeapYear t"
  using YearFromDay_bounds [of "Day t"] DayFromYear_step [of "YearFromTime t"]
  by (simp_all add: DayWithinYear_def YearFromTime_def flip: InLeapYear_eq)

lemma MonthFromTime_bounds: "0 \<le> MonthFromTime t" "MonthFromTime t \<le> 11"
  by (simp_all add: MonthFromTime_def Let_def)

lemma monthStart_DateFromTime:
  "monthStart (MonthFromTime t) (InLeapYear t) + DateFromTime t = DayWithinYear t + 1"
  by (simp add: monthStart_def DateFromTime_def MonthFromTime_def Let_def)

lemma DateFromTime_bounds: "1 \<le> DateFromTime t" "DateFromTime t \<le> 31"
  using DayWithinYear_bounds [of t] InLeapYear_cases [of t]
  by (auto simp: DateFromTime_def MonthFromTime_def Let_def)

lemma MakeDay_fields:
  "MakeDay (YearFromTime t) (MonthFromTime t) (DateFromTime t) = Day t"
proof -
  have "MonthFromTime t div 12 = 0" "MonthFromTime t mod 12 = MonthFromTime t"
    using MonthFromTime_bounds [of t] by simp_all
  then show ?thesis
    using monthStart_DateFromTime [of t]
    by (simp add: MakeDay_def InLeapYear_def DayWithinYear_def Let_def)
qed

lemma MakeDay_add: "MakeDay y m (dt + n) = MakeDay y m dt + n"
  by (simp add: MakeDay_def Let_def)

section \<open>Days, midnights and differences\<close>

lemma msPerDay_pos: "0 < msPerDay"
  by (simp add: msPerDay_def)

lemma Day_MakeDate:
  assumes "0 \<le> time" and "time < msPerDay"
  shows "Day (MakeDate day time) = day" and "TimeWithinDay (MakeDate day time) = time"
proof -
  have e: "MakeDate day time = msPerDay * day + time"
    by (simp add: MakeDate_def)
  show "Day (MakeDate day time) = day"
    unfolding Day_def by (rule int_div_pos_eq [OF e assms])
  show "TimeWithinDay (MakeDate day time) = time"
    unfolding TimeWithinDay_def by (rule int_mod_pos_eq [OF e assms])
qed

lemma Day_MakeDate_0: "Day (MakeDate day 0) = day"
  using Day_MakeDate(1) [of 0 day] msPerDay_pos by simp

lemma MakeDate_Day: "MakeDate (Day t) (TimeWithinDay t) = t"
  by (simp add: MakeDate_def Day_def TimeWithinDay_def)

lemma TimeWithinDay_bounds: "0 \<le> TimeWithinDay t" "TimeWithinDay t < msPerDay"
  using msPerDay_pos by (simp_all add: TimeWithinDay_def)

lemma addDays_time: "getTime (addDays d n) = getTime d + n * msPerDay"
proof -
  have "getTime (addDays d n)
      = MakeDate (Day (getTime d) + n) (TimeWithinDay (getTime d))"
    by (simp add: addDays_def setDate_def getDate_def Let_def MakeDay_add MakeDay_fields)
  also have "\<dots> = MakeDate (Day (getTime d)) (TimeWithinDay (getTime d)) + n * msPerDay"
    by (simp add: MakeDate_def algebra_simps)
  finally show ?thesis by (simp add: MakeDate_Day)
qed

lemma Day_add: "Day (t + n * msPerDay) = Day t + n"
  using msPerDay_pos by (simp add: Day_def)

lemma Day_addDays: "Day (getTime (addDays d n)) = Day (getTime d) + n"
  by (simp add: addDays_time Day_add)

lemma getDay_addDays: "getDay (addDays d n) = (getDay d + n) mod 7"
  by (simp add: getDay_def WeekDay_def Day_addDays mod_simps algebra_simps)

lemma getDay_bounds: "0 \<le> getDay d" "getDay d < 7"
  by (simp_all add: getDay_def WeekDay_def)

lemma Math_round_quot_mult:
  assumes "0 < m"
  shows "Math_round_quot (k * m) m = k"
proof -
  have e: "2 * (k * m) + m = 2 * m * k + m" by simp
  show ?thesis
    unfolding Math_round_quot_def by (rule int_div_pos_eq [OF e]) (use assms in auto)
qed

lemma MS_PER_DAY_eq: "MS_PER_DAY = msPerDay"
  by (simp add: MS_PER_DAY_def msPerDay_def)

lemma toLocalMidnight_time:
  "getTime (toLocalMidnight d) = Day (getTime (toLocalMidnight d)) * msPerDay"
  by (simp add: toLocalMidnight_def newDate_def Let_def Day_MakeDate_0) (simp add: MakeDate_def)

lemma daysBetween_eq:
  "daysBetween a b = Day (getTime (toLocalMidnight b)) - Day (getTime (toLocalMidnight a))"
proof -
  have "getTime (toLocalMidnight b) - getTime (toLocalMidnight a)
      = (Day (getTime (toLocalMidnight b)) - Day (getTime (toLocalMidnight a))) * msPerDay"
    using toLocalMidnight_time [of a] toLocalMidnight_time [of b]
    by (simp add: algebra_simps)
  then show ?thesis
    using Math_round_quot_mult [OF msPerDay_pos]
    by (simp add: daysBetween_def Let_def MS_PER_DAY_eq)
qed

lemma daysBetween_add: "daysBetween a c = daysBetween a b + daysBetween b c"
  by (simp add: daysBetween_eq)

text \<open>
  For dates whose year is not one of 0 to 99, \<open>toLocalMidnight\<close> keeps the calendar
  day, and \<open>daysBetween\<close> is the difference of the day numbers.
\<close>

lemma Day_toLocalMidnight:
  assumes "\<not> (0 \<le> getFullYear d \<and> getFullYear d \<le> 99)"
  shows "Day (getTime (toLocalMidnight d)) = Day (getTime d)"
  using assms
  by (auto simp add: toLocalMidnight_def newDate_def Day_MakeDate_0 getFullYear_def getMonth_def
      getDate_def MakeDay_fields)

lemma daysBetween_plain:
  assumes "\<not> (0 \<le> getFullYear a \<and> getFullYear a \<le> 99)"
    and "\<not> (0 \<le> getFullYear b \<and> getFullYear b \<le> 99)"
  shows "daysBetween a b = Day (getTime b) - Day (getTime a)"
  using assms by (simp add: daysBetween_eq Day_toLocalMidnight)

lemma getFullYear_addDays:
  assumes "100 \<le> getFullYear d" and "0 \<le> n"
  shows "100 \<le> getFullYear (addDays d n)"
proof -
  have "YearFromDay (Day (getTime d)) \<le> YearFromDay (Day (getTime d) + n)"
    using assms(2) by (intro YearFromDay_mono) simp
  then show ?thesis
    using assms(1) by (simp add: getFullYear_def YearFromTime_def Day_addDays)
qed

lemma daysBetween_addDays:
  assumes "100 \<le> getFullYear d" and "0 \<le> n"
  shows "daysBetween a (addDays d n) = daysBetween a d + n"
  using assms getFullYear_addDays [OF assms]
  by (simp add: daysBetween_eq Day_toLocalMidnight Day_addDays)

section \<open>Properties of the assignment\<close>

lemma getAssigneeForDate_duty:
  assumes "participants cfg \<noteq> []" and "getDay d = dutyWeekday cfg"
  shows "getAssigneeForDate cfg d =
    Val (participants cfg !
      nat ((max 0 (daysBetween (anchorDate cfg) d) div 7) mod int (length (participants cfg))))"
proof -
  define w where "w = max 0 (daysBetween (anchorDate cfg) d) div 7"
  define L where "L = int (length (participants cfg))"
  have w: "0 \<le> w" by (simp add: w_def pos_imp_zdiv_nonneg_iff)
  have L: "0 < L" using assms(1) by (simp add: L_def)
  have "sgn w * (\<bar>w\<bar> mod \<bar>L\<bar>) = w mod L"
    using w L by (cases "w = 0") (simp_all add: sgn_if)
  moreover have "0 \<le> w mod L" "w mod L < L" using L by simp_all
  ultimately show ?thesis
    using assms(2) L
    by (simp add: getAssigneeForDate_def js_rem_def js_index_def Let_def flip: w_def L_def)
qed

text \<open>
  C1. With a non-empty list of participants, \<open>getAssigneeForDate\<close> returns
  \<open>null\<close> exactly when the weekday of the date is not the duty weekday, and on the
  duty weekday it returns the participant at index
  \<open>floor(max(0, daysBetween(anchor, d)) / 7) mod participants.length\<close>.
\<close>

theorem assignee_formula:
  assumes "participants cfg \<noteq> []"
  shows "(getAssigneeForDate cfg d = Null \<longleftrightarrow> getDay d \<noteq> dutyWeekday cfg) \<and>
    (getDay d = dutyWeekday cfg \<longrightarrow>
       getAssigneeForDate cfg d =
         Val (participants cfg !
           nat ((max 0 (daysBetween (anchorDate cfg) d) div 7)
                  mod int (length (participants cfg)))))"
  using getAssigneeForDate_duty [OF assms, of d]
  by (auto simp: getAssigneeForDate_def)

text \<open>The formula at Wednesday 2025-08-20 in the Wednesday configuration.\<close>

theorem assignee_formula_witness:
  "participants wednesday_config \<noteq> [] \<and>
   getDay (newDate 2025 7 20) = dutyWeekday wednesday_config \<and>
   getAssigneeForDate wednesday_config (newDate 2025 7 20) =
     Val (participants wednesday_config !
       nat ((max 0 (daysBetween (anchorDate wednesday_config) (newDate 2025 7 20)) div 7)
              mod int (length (participants wednesday_config))))"
proof -
  have h: "participants wednesday_config \<noteq> []"
    by (simp add: wednesday_config_def TENANTS_def)
  have g: "getDay (newDate 2025 7 20) = dutyWeekday wednesday_config"
    by code_simp
  show ?thesis
    using assignee_formula [OF h, of "newDate 2025 7 20"] h g by simp
qed

lemma Day_mono: "t \<le> t' \<Longrightarrow> Day t \<le> Day t'"
  using msPerDay_pos by (simp add: Day_def zdiv_mono1)

lemma daysBetween_before:
  assumes "\<not> (0 \<le> getFullYear a \<and> getFullYear a \<le> 99)"
    and "\<not> (0 \<le> getFullYear d \<and> getFullYear d \<le> 99)"
    and "getTime d \<le> getTime a"
  shows "daysBetween a d \<le> 0"
  using Day_mono [OF assms(3)] by (simp add: daysBetween_plain [OF assms(1,2)])

text \<open>
  C2. On the duty weekday, a date before the anchor date gets the first participant:
  \<open>max\<close> clamps its \<open>daysBetween\<close> from the anchor to 0. "Before the anchor"
  is stated twice: as a negative \<open>daysBetween\<close> from the anchor, and as an earlier
  time value, for dates and anchors whose year is not one of 0 to 99 (which
  \<open>toLocalMidnight\<close> would move to 19xx). In the Wednesday configuration, anchored at
  2025-08-13, the date 2025-08-06 gets Basser.
\<close>

theorem before_anchor_first_participant:
  "(participants cfg \<noteq> [] \<longrightarrow> getDay d = dutyWeekday cfg \<longrightarrow>
      daysBetween (anchorDate cfg) d < 0 \<longrightarrow>
      getAssigneeForDate cfg d = Val (participants cfg ! 0)) \<and>
   (participants cfg \<noteq> [] \<longrightarrow> getDay d = dutyWeekday cfg \<longrightarrow>
      \<not> (0 \<le> getFullYear (anchorDate cfg) \<and> getFullYear (anchorDate cfg) \<le> 99) \<longrightarrow>
      \<not> (0 \<le> getFullYear d \<and> getFullYear d \<le> 99) \<longrightarrow>
      getTime d < getTime (anchorDate cfg) \<longrightarrow>
      getAssigneeForDate cfg d = Val (participants cfg ! 0)) \<and>
   getAssigneeForDate wednesday_config (newDate 2025 7 6) =
     Val \<lparr>id_t = ''1'', name = ''Basser''\<rparr>"
proof (intro conjI impI)
  assume a: "participants cfg \<noteq> []" "getDay d = dutyWeekday cfg"
    and b: "daysBetween (anchorDate cfg) d < 0"
  from b have "max 0 (daysBetween (anchorDate cfg) d) = 0" by simp
  with getAssigneeForDate_duty [OF a] show "getAssigneeForDate cfg d = Val (participants cfg ! 0)"
    by simp
next
  assume a: "participants cfg \<noteq> []" "getDay d = dutyWeekday cfg"
    and y: "\<not> (0 \<le> getFullYear (anchorDate cfg) \<and> getFullYear (anchorDate cfg) \<le> 99)"
      "\<not> (0 \<le> getFullYear d \<and> getFullYear d \<le> 99)"
    and b: "getTime d < getTime (anchorDate cfg)"
  from b have "daysBetween (anchorDate cfg) d \<le> 0"
    by (intro daysBetween_before [OF y]) simp
  then have "max 0 (daysBetween (anchorDate cfg) d) = 0" by simp
  with getAssigneeForDate_duty [OF a] show "getAssigneeForDate cfg d = Val (participants cfg ! 0)"
    by simp
next
  show "getAssigneeForDate wednesday_config (newDate 2025 7 6) =
     Val \<lparr>id_t = ''1'', name = ''Basser''\<rparr>"
    by code_simp
qed

text \<open>The clamp at Wednesday 2025-07-30, two weeks before the anchor.\<close>

theorem before_anchor_first_participant_witness:
  "participants wednesday_config \<noteq> [] \<and>
   getDay (newDate 2025 6 30) = dutyWeekday wednesday_config \<and>
   daysBetween (anchorDate wednesday_config) (newDate 2025 6 30) < 0 \<and>
   \<not> (0 \<le> getFullYear (anchorDate wednesday_config) \<and>
      getFullYear (anchorDate wednesday_config) \<le> 99) \<and>
   \<not> (0 \<le> getFullYear (newDate 2025 6 30) \<and> getFullYear (newDate 2025 6 30) \<le> 99) \<and>
   getTime (newDate 2025 6 30) < getTime (anchorDate wednesday_config) \<and>
   getAssigneeForDate wednesday_config (newDate 2025 6 30) = Val (participants wednesday_config ! 0)"
proof -
  have h: "participants wednesday_config \<noteq> []"
    by (simp add: wednesday_config_def TENANTS_def)
  have g: "getDay (newDate 2025 6 30) = dutyWeekday wednesday_config"
    by code_simp
  have b: "daysBetween (anchorDate wednesday_config) (newDate 2025 6 30) < 0"
    by code_simp
  have y: "\<not> (0 \<le> getFullYear (anchorDate wednesday_config) \<and>
      getFullYear (anchorDate wednesday_config) \<le> 99)"
    "\<not> (0 \<le> getFullYear (newDate 2025 6 30) \<and> getFullYear (newDate 2025 6 30) \<le> 99)"
    by code_simp+
  have t: "getTime (newDate 2025 6 30) < getTime (anchorDate wednesday_config)"
    by code_simp
  show ?thesis
    using before_anchor_first_participant [of wednesday_config "newDate 2025 6 30"] h g b y t
    by blast
qed

lemma week_index_shift:
  fixes a k L :: int
  assumes "0 \<le> a" and "0 \<le> a + 7 * L * k"
  shows "(max 0 (a + 7 * L * k) div 7) mod L = (max 0 a div 7) mod L"
proof -
  have "a + 7 * L * k = a + (L * k) * 7" by simp
  then have "(a + 7 * L * k) div 7 = a div 7 + L * k"
    by simp
  then show ?thesis using assms by (simp add: max_def)
qed

text \<open>
  C3. Two dates on the duty weekday, both on or after the anchor date (a
  \<open>daysBetween\<close> from the anchor that is not negative), whose \<open>daysBetween\<close> is a
  multiple of \<open>7 * participants.length\<close>, have the same assignee.
\<close>

theorem rotation_periodic:
  assumes "participants cfg \<noteq> []"
    and "getDay d1 = dutyWeekday cfg" and "getDay d2 = dutyWeekday cfg"
    and "0 \<le> daysBetween (anchorDate cfg) d1" and "0 \<le> daysBetween (anchorDate cfg) d2"
    and "7 * int (length (participants cfg)) dvd daysBetween d1 d2"
  shows "getAssigneeForDate cfg d1 = getAssigneeForDate cfg d2"
proof -
  obtain k where k: "daysBetween d1 d2 = 7 * int (length (participants cfg)) * k"
    using assms(6) by (auto simp: dvd_def)
  have e: "daysBetween (anchorDate cfg) d2
      = daysBetween (anchorDate cfg) d1 + 7 * int (length (participants cfg)) * k"
    using daysBetween_add [of "anchorDate cfg" d2 d1] k by simp
  have "(max 0 (daysBetween (anchorDate cfg) d2) div 7) mod int (length (participants cfg))
      = (max 0 (daysBetween (anchorDate cfg) d1) div 7) mod int (length (participants cfg))"
    unfolding e by (rule week_index_shift) (use assms(4,5) e in simp_all)
  then show ?thesis
    by (simp add: getAssigneeForDate_duty [OF assms(1)] assms(2,3))
qed

text \<open>Periodicity at 2025-08-20 and 2025-09-24, 35 days apart, with five tenants.\<close>

theorem rotation_periodic_witness:
  "participants wednesday_config \<noteq> [] \<and>
   getDay (newDate 2025 7 20) = dutyWeekday wednesday_config \<and>
   getDay (newDate 2025 8 24) = dutyWeekday wednesday_config \<and>
   0 \<le> daysBetween (anchorDate wednesday_config) (newDate 2025 7 20) \<and>
   0 \<le> daysBetween (anchorDate wednesday_config) (newDate 2025 8 24) \<and>
   7 * int (length (participants wednesday_config))
     dvd daysBetween (newDate 2025 7 20) (newDate 2025 8 24) \<and>
   getAssigneeForDate wednesday_config (newDate 2025 7 20) =
     getAssigneeForDate wednesday_config (newDate 2025 8 24)"
proof -
  have h1: "participants wednesday_config \<noteq> []"
    by (simp add: wednesday_config_def TENANTS_def)
  have h2: "getDay (newDate 2025 7 20) = dutyWeekday wednesday_config"
    by code_simp
  have h3: "getDay (newDate 2025 8 24) = dutyWeekday wednesday_config"
    by code_simp
  have h4: "0 \<le> daysBetween (anchorDate wednesday_config) (newDate 2025 7 20)"
    by code_simp
  have h5: "0 \<le> daysBetween (anchorDate wednesday_config) (newDate 2025 8 24)"
    by code_simp
  have e: "daysBetween (newDate 2025 7 20) (newDate 2025 8 24) = 35"
    by code_simp
  have l: "int (length (participants wednesday_config)) = 5"
    by (simp add: wednesday_config_def TENANTS_def)
  have h6: "7 * int (length (participants wednesday_config))
     dvd daysBetween (newDate 2025 7 20) (newDate 2025 8 24)"
    unfolding e l by simp
  show ?thesis
    using rotation_periodic [OF h1 h2 h3 h4 h5 h6] h1 h2 h3 h4 h5 h6 by simp
qed

text \<open>
  C5. In the Wednesday configuration 2025-09-17 is 35 days after the anchor, week 5,
  and \<open>5 mod 5 = 0\<close>: the assignee is Basser, not Leshinsky.
\<close>

theorem scenario_counterexample:
  "getAssigneeForDate wednesday_config (newDate 2025 8 17) \<noteq>
     Val \<lparr>id_t = ''4'', name = ''Leshinsky''\<rparr>"
  by code_simp

text \<open>
  C5, as the code computes it: 2025-08-13 gives Basser, 2025-08-20 Berman, 2025-08-27
  Galet and 2025-09-17 Basser.
\<close>

theorem scenario_assignees:
  "getAssigneeForDate wednesday_config (newDate 2025 7 13) = Val \<lparr>id_t = ''1'', name = ''Basser''\<rparr> \<and>
   getAssigneeForDate wednesday_config (newDate 2025 7 20) = Val \<lparr>id_t = ''2'', name = ''Berman''\<rparr> \<and>
   getAssigneeForDate wednesday_config (newDate 2025 7 27) = Val \<lparr>id_t = ''3'', name = ''Galet''\<rparr> \<and>
   getAssigneeForDate wednesday_config (newDate 2025 8 17) = Val \<lparr>id_t = ''1'', name = ''Basser''\<rparr>"
  by code_simp

lemma mset_rotate_eq: "mset (rotate n xs) = mset xs"
proof -
  have "mset (rotate n xs) = mset (drop (n mod length xs) xs) + mset (take (n mod length xs) xs)"
    by (simp add: rotate_drop_take)
  also have "\<dots> = mset (take (n mod length xs) xs @ drop (n mod length xs) xs)"
    by (simp only: mset_append add.commute)
  also have "\<dots> = mset xs"
    by (simp only: append_take_drop_id)
  finally show ?thesis .
qed

lemma getDay_addDays_week:
  "getDay (addDays d (7 * k)) = getDay d"
  using getDay_bounds [of d] by (simp add: getDay_addDays)

lemma consecutiveAssignees_rotate:
  assumes ne: "participants cfg \<noteq> []"
    and duty: "getDay start = dutyWeekday cfg"
    and after: "0 \<le> daysBetween (anchorDate cfg) start"
    and year: "100 \<le> getFullYear start"
  shows "consecutiveAssignees cfg start =
    map Val (rotate (nat ((daysBetween (anchorDate cfg) start div 7)
                       mod int (length (participants cfg)))) (participants cfg))"
proof -
  define ps where "ps = participants cfg"
  define a where "a = daysBetween (anchorDate cfg) start"
  define r where "r = nat ((a div 7) mod int (length ps))"
  have L: "0 < length ps" using ne by (simp add: ps_def)
  have w: "0 \<le> a div 7" using after by (simp add: a_def pos_imp_zdiv_nonneg_iff)
  have r: "int r = (a div 7) mod int (length ps)" using L by (simp add: r_def)
  have elem: "getAssigneeForDate cfg (addDays start (7 * int k)) = Val (rotate r ps ! k)"
    if k: "k < length ps" for k
  proof -
    have d: "getDay (addDays start (7 * int k)) = dutyWeekday cfg"
      by (simp add: getDay_addDays_week duty)
    have "daysBetween (anchorDate cfg) (addDays start (7 * int k)) = a + 7 * int k"
      using daysBetween_addDays [OF year, of "7 * int k"] by (simp add: a_def)
    moreover have "(a + 7 * int k) div 7 = a div 7 + int k"
      by simp
    moreover have "0 \<le> a + 7 * int k" using after by (simp add: a_def)
    ultimately have "max 0 (daysBetween (anchorDate cfg) (addDays start (7 * int k))) div 7
        = a div 7 + int k"
      by simp
    moreover have "(a div 7 + int k) mod int (length ps) = int ((r + k) mod length ps)"
      by (simp add: zmod_int r mod_simps)
    ultimately have "getAssigneeForDate cfg (addDays start (7 * int k))
        = Val (ps ! ((r + k) mod length ps))"
      by (simp add: getAssigneeForDate_duty [OF ne d] flip: ps_def)
    then show ?thesis using k by (simp add: nth_rotate)
  qed
  have "consecutiveAssignees cfg start = map Val (rotate r ps)"
    by (rule nth_equalityI) (simp_all add: consecutiveAssignees_def elem flip: ps_def)
  then show ?thesis by (simp add: r_def ps_def a_def)
qed

text \<open>
  C4. The claim speaks of every starting date on the duty weekday. In the Wednesday
  configuration the five occurrences from Wednesday 2025-07-30, two weeks before the
  anchor, are Basser, Basser, Basser, Berman, Galet: the clamp gives Basser to every
  date up to the anchor week, and Vale does not occur.
\<close>

theorem complete_cycle_counterexample:
  "\<not> (getDay (newDate 2025 6 30) = dutyWeekday wednesday_config \<longrightarrow>
       mset (consecutiveAssignees wednesday_config (newDate 2025 6 30)) =
         mset (map Val (participants wednesday_config)))"
proof -
  have d: "getDay (newDate 2025 6 30) = dutyWeekday wednesday_config"
    by code_simp
  have l: "consecutiveAssignees wednesday_config (newDate 2025 6 30) =
     [Val \<lparr>id_t = ''1'', name = ''Basser''\<rparr>, Val \<lparr>id_t = ''1'', name = ''Basser''\<rparr>,
      Val \<lparr>id_t = ''1'', name = ''Basser''\<rparr>, Val \<lparr>id_t = ''2'', name = ''Berman''\<rparr>,
      Val \<lparr>id_t = ''3'', name = ''Galet''\<rparr>]"
    by code_simp
  have "Val \<lparr>id_t = ''5'', name = ''Vale''\<rparr> \<in> set (map Val (participants wednesday_config))"
    by (simp add: wednesday_config_def TENANTS_def)
  moreover have "Val \<lparr>id_t = ''5'', name = ''Vale''\<rparr>
      \<notin> set (consecutiveAssignees wednesday_config (newDate 2025 6 30))"
    unfolding l by simp
  ultimately have "mset (consecutiveAssignees wednesday_config (newDate 2025 6 30)) \<noteq>
         mset (map Val (participants wednesday_config))"
    by (metis set_mset_mset)
  with d show ?thesis by simp
qed

text \<open>
  C4, amended. From a starting date on the duty weekday that is on or after the anchor
  date (and in the year 100 or later, so that no date of the cycle has a year that the
  \<open>Date\<close> constructor would read as 19xx), the assignees of
  \<open>participants.length\<close> consecutive duty occurrences are the participants, each
  as often as the list holds it: exactly once when the participants are distinct.
\<close>

theorem complete_cycle:
  assumes "participants cfg \<noteq> []"
    and "getDay start = dutyWeekday cfg"
    and "0 \<le> daysBetween (anchorDate cfg) start"
    and "100 \<le> getFullYear start"
  shows "mset (consecutiveAssignees cfg start) = mset (map Val (participants cfg)) \<and>
    (distinct (participants cfg) \<longrightarrow>
       (\<forall>p \<in> set (participants cfg). count_list (consecutiveAssignees cfg start) (Val p) = 1))"
proof -
  let ?r = "nat ((daysBetween (anchorDate cfg) start div 7) mod int (length (participants cfg)))"
  have e: "consecutiveAssignees cfg start = map Val (rotate ?r (participants cfg))"
    by (rule consecutiveAssignees_rotate [OF assms])
  have m: "mset (consecutiveAssignees cfg start) = mset (map Val (participants cfg))"
    unfolding e by (simp add: mset_rotate_eq)
  have "count_list (consecutiveAssignees cfg start) (Val p) = 1"
    if "distinct (participants cfg)" and "p \<in> set (participants cfg)" for p
  proof -
    have "count_list (consecutiveAssignees cfg start) (Val p)
        = count_list (map Val (participants cfg)) (Val p)"
      using m by (metis count_mset)
    also have "\<dots> = count_list (participants cfg) p"
      by (rule count_list_map_conv) (simp add: inj_def)
    also have "\<dots> = 1"
      using that by (simp add: distinct_count_atmost_1 flip: count_mset)
    finally show ?thesis .
  qed
  with m show ?thesis by blast
qed

text \<open>The cycle that starts at Wednesday 2025-08-27.\<close>

theorem complete_cycle_witness:
  "participants wednesday_config \<noteq> [] \<and>
   getDay (newDate 2025 7 27) = dutyWeekday wednesday_config \<and>
   0 \<le> daysBetween (anchorDate wednesday_config) (newDate 2025 7 27) \<and>
   100 \<le> getFullYear (newDate 2025 7 27) \<and>
   distinct (participants wednesday_config) \<and>
   \<lparr>id_t = ''1'', name = ''Basser''\<rparr> \<in> set (participants wednesday_config) \<and>
   mset (consecutiveAssignees wednesday_config (newDate 2025 7 27)) =
     mset (map Val (participants wednesday_config)) \<and>
   count_list (consecutiveAssignees wednesday_config (newDate 2025 7 27))
     (Val \<lparr>id_t = ''1'', name = ''Basser''\<rparr>) = 1"
proof -
  have h1: "participants wednesday_config \<noteq> []"
    by (simp add: wednesday_config_def TENANTS_def)
  have h2: "getDay (newDate 2025 7 27) = dutyWeekday wednesday_config"
    by code_simp
  have h3: "0 \<le> daysBetween (anchorDate wednesday_config) (newDate 2025 7 27)"
    by code_simp
  have h4: "100 \<le> getFullYear (newDate 2025 7 27)"
    by code_simp
  have h5: "distinct (participants wednesday_config)"
    by (simp add: wednesday_config_def TENANTS_def)
  have h6: "\<lparr>id_t = ''1'', name = ''Basser''\<rparr> \<in> set (participants wednesday_config)"
    by (simp add: wednesday_config_def TENANTS_def)
  show ?thesis
    using complete_cycle [OF h1 h2 h3 h4] h1 h2 h3 h4 h5 h6 by blast
qed

section \<open>Properties of the enumerations\<close>

text \<open>
  The loop of \<open>twelveWeeks\<close> appends, to a list of fewer than 12 entries, the duty
  days among the offsets \<open>i\<close> to 119 until the list holds 12.
\<close>

lemma twelveWeeks_loop_eq:
  "length list < 12 \<Longrightarrow>
   twelveWeeks_loop cfg today i list =
     list @ take (12 - length list)
       (map (occurrenceAt cfg today)
         (filter (\<lambda>j. getDay (addDays today j) = dutyWeekday cfg) [i..119]))"
proof (induction cfg today i list rule: twelveWeeks_loop.induct)
  case (1 cfg today i list)
  show ?case
  proof (cases "i < 120")
    case False
    then have "[i..119] = []" by simp
    with False show ?thesis by (subst twelveWeeks_loop.simps) simp
  next
    case True
    then have up: "[i..119] = i # [i + 1..119]" by (simp add: upto_rec1)
    show ?thesis
    proof (cases "getDay (addDays today i) = dutyWeekday cfg")
      case False
      with True 1 show ?thesis
        by (subst twelveWeeks_loop.simps) (simp add: up Let_def)
    next
      case duty: True
      define list' where "list' = list @ [occurrenceAt cfg today i]"
      have l': "list' = list @ [\<lparr>date = addDays today i,
          who = getAssigneeForDate cfg (addDays today i)\<rparr>]"
        by (simp add: list'_def occurrenceAt_def)
      show ?thesis
      proof (cases "int (length list') = 12")
        case full: True
        then have "12 - length list = Suc 0" by (simp add: list'_def)
        with True duty full show ?thesis
          by (subst twelveWeeks_loop.simps) (simp add: up Let_def flip: l', simp add: list'_def)
      next
        case notfull: False
        then have lt: "length list' < 12" using "1.prems" by (simp add: list'_def)
        have "twelveWeeks_loop cfg today (i + 1) list' =
            list' @ take (12 - length list')
              (map (occurrenceAt cfg today)
                (filter (\<lambda>j. getDay (addDays today j) = dutyWeekday cfg) [i + 1..119]))"
          by (rule "1.IH"(1) [OF True refl duty l' notfull lt])
        moreover have "12 - length list = Suc (12 - length list')"
          using lt by (simp add: list'_def)
        ultimately show ?thesis
          using True duty notfull
          by (subst twelveWeeks_loop.simps)
            (simp add: up Let_def flip: l', simp add: list'_def)
      qed
    qed
  qed
qed

lemma every_seventh:
  "\<forall>c \<in> set [0..6]. take 12 (filter (\<lambda>j. j mod 7 = c) [0..119]) = map (\<lambda>k. c + 7 * int k) [0..<12]"
  by code_simp


lemma duty_offset:
  fixes g dw j :: int
  assumes "0 \<le> dw" and "dw < 7"
  shows "(g + j) mod 7 = dw \<longleftrightarrow> j mod 7 = (dw - g) mod 7"
proof
  assume "(g + j) mod 7 = dw"
  then have "(dw - g) mod 7 = ((g + j) mod 7 - g) mod 7" by simp
  also have "\<dots> = (g + j - g) mod 7" by (simp only: mod_diff_left_eq)
  finally show "j mod 7 = (dw - g) mod 7" by simp
next
  assume a: "j mod 7 = (dw - g) mod 7"
  have "(g + j) mod 7 = (g + j mod 7) mod 7" by (simp only: mod_add_right_eq)
  also have "\<dots> = (g + (dw - g)) mod 7" by (simp only: a mod_add_right_eq)
  finally show "(g + j) mod 7 = dw" using assms by simp
qed

lemma twelveWeeks_eq:
  assumes "0 \<le> dutyWeekday cfg" and "dutyWeekday cfg < 7"
  shows "twelveWeeks cfg today =
    map (\<lambda>k. occurrenceAt cfg today ((dutyWeekday cfg - getDay today) mod 7 + 7 * int k))
      [0..<12]"
proof -
  define c where "c = (dutyWeekday cfg - getDay today) mod 7"
  have c: "c \<in> set [0..6]" by (simp add: c_def)
  have "filter (\<lambda>j. getDay (addDays today j) = dutyWeekday cfg) [0..119]
      = filter (\<lambda>j. j mod 7 = c) [0..119]"
    by (rule filter_cong [OF refl]) (simp add: getDay_addDays duty_offset [OF assms] c_def)
  then have "twelveWeeks cfg today
      = map (occurrenceAt cfg today) (take 12 (filter (\<lambda>j. j mod 7 = c) [0..119]))"
    by (simp add: twelveWeeks_def twelveWeeks_loop_eq take_map)
  also have "\<dots> = map (occurrenceAt cfg today) (map (\<lambda>k. c + 7 * int k) [0..<12])"
    using every_seventh c by (simp only:)
  finally show ?thesis by (simp add: c_def o_def)
qed

text \<open>
  C6. For a duty weekday from 0 to 6 and every start date, \<open>twelveWeeks\<close> (12
  entries wanted, 120 days scanned) returns exactly 12 entries, strictly increasing in
  date, each on the duty weekday and paired with its assignee. The first entry is the
  earliest day on the duty weekday on or after the start date: no day from the start
  date up to it is on the duty weekday, and it is the start date itself exactly when
  the start date is on the duty weekday.
\<close>

theorem twelveWeeks_entries:
  assumes "0 \<le> dutyWeekday cfg" and "dutyWeekday cfg < 7"
  shows "length (twelveWeeks cfg today) = 12 \<and>
    sorted_wrt (<) (map (\<lambda>e. getTime (date e)) (twelveWeeks cfg today)) \<and>
    (\<forall>e \<in> set (twelveWeeks cfg today).
       getDay (date e) = dutyWeekday cfg \<and> who e = getAssigneeForDate cfg (date e)) \<and>
    Day (getTime today) \<le> Day (getTime (date (hd (twelveWeeks cfg today)))) \<and>
    (\<forall>x. Day (getTime today) \<le> Day (getTime x) \<and>
          Day (getTime x) < Day (getTime (date (hd (twelveWeeks cfg today)))) \<longrightarrow>
          getDay x \<noteq> dutyWeekday cfg) \<and>
    (date (hd (twelveWeeks cfg today)) = today \<longleftrightarrow> getDay today = dutyWeekday cfg)"
proof -
  define c where "c = (dutyWeekday cfg - getDay today) mod 7"
  have c: "0 \<le> c" "c < 7" by (simp_all add: c_def)
  note eq = twelveWeeks_eq [OF assms, of today, folded c_def]
  have len: "length (twelveWeeks cfg today) = 12"
    by (simp add: eq)
  have "sorted_wrt (\<lambda>k l. getTime today + (c + 7 * int k) * msPerDay
           < getTime today + (c + 7 * int l) * msPerDay) [0..<12]"
    by (rule sorted_wrt_mono_rel [of _ "(<)"]) (use msPerDay_pos in simp_all)
  then have incr: "sorted_wrt (<) (map (\<lambda>e. getTime (date e)) (twelveWeeks cfg today))"
    by (simp add: eq sorted_wrt_map occurrenceAt_def addDays_time)
  have duty: "getDay (date e) = dutyWeekday cfg \<and> who e = getAssigneeForDate cfg (date e)"
    if "e \<in> set (twelveWeeks cfg today)" for e
  proof -
    from that obtain k where e: "e = occurrenceAt cfg today (c + 7 * int k)"
      by (auto simp: eq)
    have "(c + 7 * int k) mod 7 = c" using c by simp
    then have "(getDay today + (c + 7 * int k)) mod 7 = dutyWeekday cfg"
      by (simp only: duty_offset [OF assms] c_def)
    then show ?thesis by (simp add: e occurrenceAt_def getDay_addDays)
  qed
  have hd: "date (hd (twelveWeeks cfg today)) = addDays today c"
    by (simp add: eq upt_rec occurrenceAt_def)
  have first: "Day (getTime today) \<le> Day (getTime (date (hd (twelveWeeks cfg today))))"
    using c by (simp add: hd Day_addDays)
  have earliest: "getDay x \<noteq> dutyWeekday cfg"
    if "Day (getTime today) \<le> Day (getTime x) \<and>
        Day (getTime x) < Day (getTime (date (hd (twelveWeeks cfg today))))" for x
  proof -
    define j where "j = Day (getTime x) - Day (getTime today)"
    have j: "0 \<le> j" "j < c" using that by (simp_all add: j_def hd Day_addDays)
    have "(Day (getTime today) + 4) mod 7 + j = j + (Day (getTime today) + 4) mod 7"
      by simp
    then have "getDay x = (getDay today + j) mod 7"
      by (simp only: getDay_def WeekDay_def mod_add_right_eq) (simp add: j_def)
    moreover have "j mod 7 \<noteq> c" using j c by simp
    ultimately show ?thesis
      by (simp add: duty_offset [OF assms] c_def)
  qed
  have "(getDay today + 0) mod 7 = dutyWeekday cfg \<longleftrightarrow> (0::int) mod 7 = c"
    unfolding c_def by (rule duty_offset [OF assms])
  then have "c = 0 \<longleftrightarrow> getDay today = dutyWeekday cfg"
    using getDay_bounds [of today] by auto
  moreover have "addDays today c = today \<longleftrightarrow> c = 0"
    using msPerDay_pos by (auto simp: addDays_time intro: Date.expand dest: arg_cong [of _ _ getTime])
  ultimately have same:
    "date (hd (twelveWeeks cfg today)) = today \<longleftrightarrow> getDay today = dutyWeekday cfg"
    by (simp add: hd)
  from len incr duty first earliest same show ?thesis by blast
qed


text \<open>
  From Sunday 2025-11-02 in the Wednesday configuration: Monday 2025-11-03 lies before
  the first entry and is not a duty day.
\<close>

theorem twelveWeeks_entries_witness:
  "0 \<le> dutyWeekday wednesday_config \<and> dutyWeekday wednesday_config < 7 \<and>
   length (twelveWeeks wednesday_config (newDate 2025 10 2)) = 12 \<and>
   Day (getTime (newDate 2025 10 2)) \<le> Day (getTime (newDate 2025 10 3)) \<and>
   Day (getTime (newDate 2025 10 3))
     < Day (getTime (date (hd (twelveWeeks wednesday_config (newDate 2025 10 2))))) \<and>
   getDay (newDate 2025 10 3) \<noteq> dutyWeekday wednesday_config \<and>
   hd (twelveWeeks wednesday_config (newDate 2025 10 2))
     \<in> set (twelveWeeks wednesday_config (newDate 2025 10 2)) \<and>
   getDay (date (hd (twelveWeeks wednesday_config (newDate 2025 10 2))))
     = dutyWeekday wednesday_config"
proof -
  have h1: "0 \<le> dutyWeekday wednesday_config" "dutyWeekday wednesday_config < 7"
    by (simp_all add: wednesday_config_def)
  have h2: "Day (getTime (newDate 2025 10 2)) \<le> Day (getTime (newDate 2025 10 3))"
    by code_simp
  have h3: "Day (getTime (newDate 2025 10 3))
     < Day (getTime (date (hd (twelveWeeks wednesday_config (newDate 2025 10 2)))))"
    by code_simp
  note t = twelveWeeks_entries [OF h1, of "newDate 2025 10 2"]
  from t have "twelveWeeks wednesday_config (newDate 2025 10 2) \<noteq> []"
    by auto
  then have h4: "hd (twelveWeeks wednesday_config (newDate 2025 10 2))
      \<in> set (twelveWeeks wednesday_config (newDate 2025 10 2))"
    by simp
  from t h1 h2 h3 h4 show ?thesis by blast
qed

text \<open>The loop of \<open>nextForSelected\<close>, step by step.\<close>

lemma assignedTo_duty: "assignedTo cfg pid d \<Longrightarrow> getDay d = dutyWeekday cfg"
  by (auto simp: assignedTo_def getAssigneeForDate_def split: if_splits)

lemma js_index_Val: "js_index xs i = Val x \<Longrightarrow> x \<in> set xs"
  by (auto simp: js_index_def split: if_splits)

lemma getAssigneeForDate_Val:
  "getAssigneeForDate cfg d = Val w \<Longrightarrow> w \<in> set (participants cfg)"
  by (auto simp: getAssigneeForDate_def Let_def split: if_splits option.splits
      dest: js_index_Val)

lemma assignedTo_member: "assignedTo cfg pid d \<Longrightarrow> pid \<in> id_t ` set (participants cfg)"
  by (auto simp: assignedTo_def split: js.splits dest: getAssigneeForDate_Val)

lemma nextForSelected_loop_step:
  "nextForSelected_loop cfg sel today i =
     (if i < 365 then
        (if assignedTo cfg sel (addDays today i) then Some (addDays today i)
         else nextForSelected_loop cfg sel today (i + 1))
      else None)"
proof -
  have "getDay (addDays today i) \<noteq> dutyWeekday cfg \<Longrightarrow> \<not> assignedTo cfg sel (addDays today i)"
    using assignedTo_duty by blast
  then show ?thesis
    by (subst nextForSelected_loop.simps) (auto simp: Let_def assignedTo_def)
qed

lemma nextForSelected_loop_Some:
  "nextForSelected_loop cfg sel today i = Some r \<Longrightarrow>
   \<exists>k. i \<le> k \<and> k < 365 \<and> r = addDays today k \<and> assignedTo cfg sel r \<and>
       (\<forall>j. i \<le> j \<and> j < k \<longrightarrow> \<not> assignedTo cfg sel (addDays today j))"
proof (induction cfg sel today i rule: nextForSelected_loop.induct)
  case (1 cfg sel today i)
  from "1.prems" have lt: "i < 365"
    by (subst (asm) nextForSelected_loop_step) (simp split: if_splits)
  show ?case
  proof (cases "assignedTo cfg sel (addDays today i)")
    case True
    with "1.prems" lt have "r = addDays today i"
      by (subst (asm) nextForSelected_loop_step) simp
    with True lt show ?thesis by (intro exI [of _ i]) auto
  next
    case False
    with "1.prems" lt have rec: "nextForSelected_loop cfg sel today (i + 1) = Some r"
      by (subst (asm) nextForSelected_loop_step) simp
    have "\<exists>k. i + 1 \<le> k \<and> k < 365 \<and> r = addDays today k \<and> assignedTo cfg sel r \<and>
       (\<forall>j. i + 1 \<le> j \<and> j < k \<longrightarrow> \<not> assignedTo cfg sel (addDays today j))"
    proof (cases "getDay (addDays today i) = dutyWeekday cfg")
      case True
      show ?thesis
        by (rule "1.IH"(2) [OF lt refl _ refl _ rec]) (use True False in \<open>auto simp: assignedTo_def\<close>)
    next
      case nd: False
      show ?thesis
        by (rule "1.IH"(1) [OF lt refl nd rec])
    qed
    then obtain k where k: "i + 1 \<le> k" "k < 365" "r = addDays today k" "assignedTo cfg sel r"
      "\<forall>j. i + 1 \<le> j \<and> j < k \<longrightarrow> \<not> assignedTo cfg sel (addDays today j)"
      by blast
    have "\<not> assignedTo cfg sel (addDays today j)" if "i \<le> j \<and> j < k" for j
      using that k(5) False by (cases "j = i") auto
    with k show ?thesis by (intro exI [of _ k]) auto
  qed
qed

lemma nextForSelected_loop_None:
  "(\<And>d. \<not> assignedTo cfg sel d) \<Longrightarrow> nextForSelected_loop cfg sel today i = None"
proof (induction cfg sel today i rule: nextForSelected_loop.induct)
  case (1 cfg sel today i)
  show ?case
  proof (cases "i < 365")
    case False
    then show ?thesis by (subst nextForSelected_loop_step) simp
  next
    case True
    have "nextForSelected_loop cfg sel today (i + 1) = None"
    proof (cases "getDay (addDays today i) = dutyWeekday cfg")
      case d: True
      show ?thesis
        by (rule "1.IH"(2) [OF True refl _ refl]) (use d "1.prems" in \<open>auto simp: assignedTo_def\<close>)
    next
      case nd: False
      show ?thesis
        by (rule "1.IH"(1) [OF True refl nd "1.prems"])
    qed
    with True "1.prems" show ?thesis by (subst nextForSelected_loop_step) simp
  qed
qed


text \<open>
  C7. \<open>nextForSelected\<close> looks at the 365 days from the start date on. A date it
  returns is one of them, falls on the duty weekday and has an assignee whose id is
  the selected one, and no earlier of these days has such an assignee. For an id that
  no participant has, the result is \<open>null\<close>; the function has no failing branch.
\<close>

theorem nextForSelected_result:
  "(nextForSelected cfg sel today = Some r \<longrightarrow>
      (\<exists>i. 0 \<le> i \<and> i < 365 \<and> r = addDays today i \<and>
           getDay r = dutyWeekday cfg \<and>
           (\<exists>w. getAssigneeForDate cfg r = Val w \<and> id_t w = sel) \<and>
           (\<forall>j. 0 \<le> j \<and> j < i \<longrightarrow> \<not> assignedTo cfg sel (addDays today j)))) \<and>
   (sel \<notin> id_t ` set (participants cfg) \<longrightarrow> nextForSelected cfg sel today = None)"
proof (intro conjI impI)
  assume "nextForSelected cfg sel today = Some r"
  then have "nextForSelected_loop cfg sel today 0 = Some r"
    by (simp add: nextForSelected_def split: if_splits)
  then obtain k where k: "0 \<le> k" "k < 365" "r = addDays today k" "assignedTo cfg sel r"
    "\<forall>j. 0 \<le> j \<and> j < k \<longrightarrow> \<not> assignedTo cfg sel (addDays today j)"
    using nextForSelected_loop_Some by blast
  from k(4) have "\<exists>w. getAssigneeForDate cfg r = Val w \<and> id_t w = sel"
    by (auto simp: assignedTo_def split: js.splits)
  with k assignedTo_duty [OF k(4)]
  show "\<exists>i. 0 \<le> i \<and> i < 365 \<and> r = addDays today i \<and>
           getDay r = dutyWeekday cfg \<and>
           (\<exists>w. getAssigneeForDate cfg r = Val w \<and> id_t w = sel) \<and>
           (\<forall>j. 0 \<le> j \<and> j < i \<longrightarrow> \<not> assignedTo cfg sel (addDays today j))"
    by blast
next
  assume "sel \<notin> id_t ` set (participants cfg)"
  then have "\<not> assignedTo cfg sel d" for d
    using assignedTo_member by blast
  then have "nextForSelected_loop cfg sel today 0 = None"
    by (rule nextForSelected_loop_None)
  then show "nextForSelected cfg sel today = None"
    by (simp add: nextForSelected_def)
qed

lemma addDays_inject: "addDays d i = addDays d j \<Longrightarrow> i = j"
  using msPerDay_pos by (auto simp: addDays_time dest: arg_cong [of _ _ getTime])

text \<open>
  From Sunday 2025-11-02 in the Wednesday configuration: tenant 4 is next on duty 10
  days later and not on Wednesday 2025-11-05; no tenant has the id 9.
\<close>

theorem nextForSelected_result_witness:
  "nextForSelected wednesday_config ''4'' (newDate 2025 10 2)
     = Some (addDays (newDate 2025 10 2) 10) \<and>
   getDay (addDays (newDate 2025 10 2) 10) = dutyWeekday wednesday_config \<and>
   (\<exists>w. getAssigneeForDate wednesday_config (addDays (newDate 2025 10 2) 10) = Val w \<and>
        id_t w = ''4'') \<and>
   \<not> assignedTo wednesday_config ''4'' (addDays (newDate 2025 10 2) 3) \<and>
   ''9'' \<notin> id_t ` set (participants wednesday_config) \<and>
   nextForSelected wednesday_config ''9'' (newDate 2025 10 2) = None"
proof -
  have h1: "nextForSelected wednesday_config ''4'' (newDate 2025 10 2)
     = Some (addDays (newDate 2025 10 2) 10)"
    by code_simp
  have h2: "''9'' \<notin> id_t ` set (participants wednesday_config)"
    by (simp add: wednesday_config_def TENANTS_def)
  from nextForSelected_result
    [of wednesday_config "''4''" "newDate 2025 10 2" "addDays (newDate 2025 10 2) 10"] h1
  obtain i where i: "addDays (newDate 2025 10 2) 10 = addDays (newDate 2025 10 2) i"
    "getDay (addDays (newDate 2025 10 2) 10) = dutyWeekday wednesday_config"
    "\<exists>w. getAssigneeForDate wednesday_config (addDays (newDate 2025 10 2) 10) = Val w \<and>
        id_t w = ''4''"
    "\<forall>j. 0 \<le> j \<and> j < i \<longrightarrow>
        \<not> assignedTo wednesday_config ''4'' (addDays (newDate 2025 10 2) j)"
    by blast
  from i(1) have "i = 10" by (auto dest: addDays_inject)
  with i(4) have h3: "\<not> assignedTo wednesday_config ''4'' (addDays (newDate 2025 10 2) 3)"
    by simp
  from nextForSelected_result [of wednesday_config "''9''" "newDate 2025 10 2"] h2
  have h4: "nextForSelected wednesday_config ''9'' (newDate 2025 10 2) = None"
    by blast
  from h1 h2 h3 h4 i(2,3) show ?thesis by blast
qed

section \<open>Months\<close>

text \<open>
  A day that MakeDay builds from a month 0 to 11 and a day of that month has these as
  its fields: the converse of \<open>MakeDay_fields\<close>.
\<close>

lemma month_cases:
  fixes m :: int
  assumes "0 \<le> m" and "m \<le> 11"
  obtains "m = 0" | "m = 1" | "m = 2" | "m = 3" | "m = 4" | "m = 5"
    | "m = 6" | "m = 7" | "m = 8" | "m = 9" | "m = 10" | "m = 11"
proof -
  have "[0..11] = [0, 1, 2, 3, 4, 5, 6, 7, 8, 9, 10, 11 :: int]"
    by code_simp
  moreover have "m \<in> set [0..11]" using assms by simp
  ultimately have "m = 0 \<or> m = 1 \<or> m = 2 \<or> m = 3 \<or> m = 4 \<or> m = 5
      \<or> m = 6 \<or> m = 7 \<or> m = 8 \<or> m = 9 \<or> m = 10 \<or> m = 11"
    by (simp only: set_simps insert_iff empty_iff) simp
  then show thesis using that by blast
qed

lemma monthStart_next:
  assumes "0 \<le> m" and "m \<le> 10"
  shows "monthStart (m + 1) (if DaysInYear y = 365 then 0 else 1)
    = monthStart m (if DaysInYear y = 365 then 0 else 1) + monthLength y m"
proof -
  from assms have "0 \<le> m" "m \<le> 11" by simp_all
  then show ?thesis
    by (rule month_cases; insert assms(2); simp add: monthStart_def monthLength_def)
qed

lemma monthStart_end:
  assumes "0 \<le> m" and "m \<le> 11"
  shows "0 \<le> monthStart m (if DaysInYear y = 365 then 0 else 1)"
    and "monthStart m (if DaysInYear y = 365 then 0 else 1) + monthLength y m \<le> DaysInYear y"
  by (rule month_cases [OF assms]; insert DaysInYear_le [of y] DaysInYear_ge [of y];
      simp add: monthStart_def monthLength_def)+

lemma MakeDay_month:
  assumes "0 \<le> m" and "m \<le> 11"
  shows "MakeDay y m dt
    = DayFromYear y + monthStart m (if DaysInYear y = 365 then 0 else 1) + dt - 1"
proof -
  have "m div 12 = 0" "m mod 12 = m" using assms by simp_all
  then show ?thesis by (simp add: MakeDay_def)
qed

lemma MakeDay_carry: "MakeDay y m dt = MakeDay (y + m div 12) (m mod 12) dt"
  by (simp add: MakeDay_def)

lemma fields_MakeDay:
  assumes m: "0 \<le> m" "m \<le> 11" and dt: "1 \<le> dt" "dt \<le> monthLength y m"
    and t: "Day t = MakeDay y m dt"
  shows "YearFromTime t = y" and "MonthFromTime t = m" and "DateFromTime t = dt"
proof -
  define l :: int where "l = (if DaysInYear y = 365 then 0 else 1)"
  define s where "s = monthStart m l"
  have d: "Day t = DayFromYear y + s + dt - 1"
    using t by (simp add: MakeDay_month [OF m] l_def s_def)
  have "0 \<le> s" "s + monthLength y m \<le> DaysInYear y"
    using monthStart_end [OF m, of y] by (simp_all add: s_def l_def)
  then have "DayFromYear y \<le> Day t" "Day t < DayFromYear (y + 1)"
    using dt d by (simp_all add: DayFromYear_step)
  then show y: "YearFromTime t = y"
    unfolding YearFromTime_def by (rule YearFromDay_unique)
  have leap: "InLeapYear t = l" by (simp add: InLeapYear_def y l_def)
  have dwy: "DayWithinYear t = s + dt - 1" by (simp add: DayWithinYear_def y d)
  have l01: "l = 0 \<or> l = 1" by (simp add: l_def)
  have len: "monthLength y 1 = 28 + l"
    by (simp add: monthLength_def l_def)
  show mo: "MonthFromTime t = m"
    by (rule month_cases [OF m]; insert dt l01 len;
        simp add: MonthFromTime_def Let_def leap dwy s_def monthStart_def monthLength_def;
        auto)
  show "DateFromTime t = dt"
    by (rule month_cases [OF m];
        simp add: DateFromTime_def Let_def leap dwy mo s_def monthStart_def)
qed


lemma monthLength_bounds: "28 \<le> monthLength y m" "monthLength y m \<le> 31"
  by (simp_all add: monthLength_def)

lemma Day_addMonths:
  "Day (getTime (addMonths d n))
     = MakeDay (getFullYear d + (getMonth d + n) div 12) ((getMonth d + n) mod 12) (getDate d)"
  using MakeDay_carry [of "getFullYear d" "getMonth d + n" "getDate d"]
    Day_MakeDate(1) [OF TimeWithinDay_bounds]
  by (simp add: addMonths_def setMonth_def Let_def getFullYear_def getMonth_def getDate_def)

lemma TimeWithinDay_addMonths:
  "TimeWithinDay (getTime (addMonths d n)) = TimeWithinDay (getTime d)"
  using Day_MakeDate(2) [OF TimeWithinDay_bounds]
  by (simp add: addMonths_def setMonth_def Let_def)

text \<open>
  C9. \<open>addMonths(d, n)\<close> moves the month by \<open>n\<close>, carrying whole years, and
  keeps the time of day. When the target month has the day of the month of \<open>d\<close>,
  the day of the month is kept. When the target month is shorter, the result is in
  the month after it, on the day that is the excess: one month after 2025-01-31 is
  2025-03-03. Nothing is clamped to the last day of the target month.
\<close>

theorem addMonths_fields:
  "(let ty = getFullYear d + (getMonth d + n) div 12;
        tm = (getMonth d + n) mod 12
    in (getDate d \<le> monthLength ty tm \<longrightarrow>
          getFullYear (addMonths d n) = ty \<and> getMonth (addMonths d n) = tm \<and>
          getDate (addMonths d n) = getDate d) \<and>
       (monthLength ty tm < getDate d \<longrightarrow>
          getFullYear (addMonths d n) = ty \<and> getMonth (addMonths d n) = tm + 1 \<and>
          getDate (addMonths d n) = getDate d - monthLength ty tm)) \<and>
   TimeWithinDay (getTime (addMonths d n)) = TimeWithinDay (getTime d) \<and>
   addMonths (newDate 2025 0 31) 1 = newDate 2025 2 3"
proof -
  define ty where "ty = getFullYear d + (getMonth d + n) div 12"
  define tm where "tm = (getMonth d + n) mod 12"
  define t' where "t' = getTime (addMonths d n)"
  have tm: "0 \<le> tm" "tm \<le> 11" by (simp_all add: tm_def)
  have D: "1 \<le> getDate d" "getDate d \<le> 31"
    using DateFromTime_bounds [of "getTime d"] by (simp_all add: getDate_def)
  have day: "Day t' = MakeDay ty tm (getDate d)"
    by (simp add: t'_def ty_def tm_def Day_addMonths)
  have fits: "YearFromTime t' = ty \<and> MonthFromTime t' = tm \<and> DateFromTime t' = getDate d"
    if "getDate d \<le> monthLength ty tm"
    using fields_MakeDay [OF tm D(1) that day] by simp
  have rolls: "YearFromTime t' = ty \<and> MonthFromTime t' = tm + 1 \<and>
      DateFromTime t' = getDate d - monthLength ty tm"
    if over: "monthLength ty tm < getDate d"
  proof -
    have "tm \<noteq> 11" using over D(2) by (auto simp: monthLength_def)
    with tm have tm10: "tm \<le> 10" by simp
    have m': "0 \<le> tm + 1" "tm + 1 \<le> 11" using tm tm10 by simp_all
    have "MakeDay ty tm (getDate d) = MakeDay ty (tm + 1) (getDate d - monthLength ty tm)"
      by (simp add: MakeDay_month [OF tm] MakeDay_month [OF m'] monthStart_next [OF tm(1) tm10])
    with day have day': "Day t' = MakeDay ty (tm + 1) (getDate d - monthLength ty tm)"
      by simp
    have "1 \<le> getDate d - monthLength ty tm" using over by simp
    moreover have "getDate d - monthLength ty tm \<le> monthLength ty (tm + 1)"
      using D(2) monthLength_bounds [of ty tm] monthLength_bounds [of ty "tm + 1"] by simp
    ultimately show ?thesis
      using fields_MakeDay [OF m' _ _ day'] by simp
  qed
  have ex: "addMonths (newDate 2025 0 31) 1 = newDate 2025 2 3"
    by code_simp
  show ?thesis
    unfolding Let_def ty_def [symmetric] tm_def [symmetric]
    using fits rolls ex TimeWithinDay_addMonths [of d n]
    by (simp add: getFullYear_def getMonth_def getDate_def t'_def)
qed

text \<open>
  Six months after 2025-08-13 is 2026-02-13; one month after 2024-01-31, with a
  February of 29 days, is 2024-03-02.
\<close>

theorem addMonths_fields_witness:
  "getDate (newDate 2025 7 13) \<le> monthLength 2026 1 \<and>
   getFullYear (addMonths (newDate 2025 7 13) 6) = 2026 \<and>
   getMonth (addMonths (newDate 2025 7 13) 6) = 1 \<and>
   getDate (addMonths (newDate 2025 7 13) 6) = 13 \<and>
   monthLength 2024 1 < getDate (newDate 2024 0 31) \<and>
   getFullYear (addMonths (newDate 2024 0 31) 1) = 2024 \<and>
   getMonth (addMonths (newDate 2024 0 31) 1) = 2 \<and>
   getDate (addMonths (newDate 2024 0 31) 1) = 2"
proof -
  have a: "getFullYear (newDate 2025 7 13) = 2025" "getMonth (newDate 2025 7 13) = 7"
    "getDate (newDate 2025 7 13) = 13" "monthLength 2026 1 = 28"
    by code_simp+
  have b: "getFullYear (newDate 2024 0 31) = 2024" "getMonth (newDate 2024 0 31) = 0"
    "getDate (newDate 2024 0 31) = 31" "monthLength 2024 1 = 29"
    by code_simp+
  show ?thesis
    using addMonths_fields [of "newDate 2025 7 13" 6] addMonths_fields [of "newDate 2024 0 31" 1]
    by (simp add: a b Let_def)
qed

section \<open>Properties of the calendar grid\<close>























end
